theory Spec2Isabelle
  imports Main "HOL-Library.Log_Nat" "HOL-Library.AList" "HOL-Library.Multiset"
begin

section \<open>Go values used by the exporter\<close>

text \<open>
  Every gauge value that \<^verbatim>\<open>main.go\<close> writes is the \<^verbatim>\<open>float64\<close> nearest to an integer
  (a converted \<^verbatim>\<open>int\<close>/\<^verbatim>\<open>int64\<close>, the decimal text of a \<^verbatim>\<open>BIGINT\<close> column, or the literal 0),
  and such a \<^verbatim>\<open>float64\<close> is itself an integer. A gauge value is therefore represented by the
  integer it denotes, and the conversion is the IEEE 754 rounding to 53 significant bits
  (nearest, ties to even) written out.
\<close>

type_synonym float64 = int

definition float64_of_int :: "int \<Rightarrow> float64" where
  "float64_of_int n =
     (let a = \<bar>n\<bar> in
      if a \<le> 2 ^ 53 then n
      else
        let e = nat (bitlen a - 53);
            q = a div 2 ^ e;
            r = a mod 2 ^ e;
            h = 2 ^ (e - 1);
            q' = (if h < r \<or> (r = h \<and> odd q) then q + 1 else q)
        in sgn n * (q' * 2 ^ e))"

text \<open>
  \<^verbatim>\<open>sql.NullString\<close>, \<^verbatim>\<open>sql.NullInt64\<close> and \<^verbatim>\<open>sql.NullFloat64\<close>: a value field
  (\<^verbatim>\<open>String\<close>, \<^verbatim>\<open>Int64\<close>, \<^verbatim>\<open>Float64\<close>) and the flag \<^verbatim>\<open>Valid\<close>. Scanning SQL NULL
  stores the zero value and \<^verbatim>\<open>Valid = false\<close>.
\<close>

record 'a Null =
  Val :: 'a
  Valid :: bool

text \<open>
  Errors, as the values handed to the \<^verbatim>\<open>log\<close> package: an error returned by a library
  call (\<^verbatim>\<open>db.Query\<close>, \<^verbatim>\<open>sql.Open\<close>, \<^verbatim>\<open>readConfig\<close>), given by its message, and the two
  ways \<^verbatim>\<open>rows.Scan\<close> fails: the number of destinations differs from the number of columns
  (columns, destinations), or the column at an index does not convert to its destination.
\<close>

datatype error =
    ErrorText string
  | ScanArity nat nat
  | ScanColumn nat

section \<open>The metric registry\<close>

text \<open>The five \<^verbatim>\<open>GaugeVec\<close> variables of \<^verbatim>\<open>main.go\<close>, lines 17 to 52.\<close>

datatype metric = tableSize | indexSize | tableRows | processListCount | connCount

fun metric_name :: "metric \<Rightarrow> string" where
  "metric_name tableSize = ''mysql_table_size_bytes''"
| "metric_name indexSize = ''mysql_index_size_bytes''"
| "metric_name tableRows = ''mysql_table_rows''"
| "metric_name processListCount = ''mysql_processlist_count''"
| "metric_name connCount = ''mysql_conn_count''"

fun label_names :: "metric \<Rightarrow> string list" where
  "label_names tableSize = [''cloud_name'', ''database'', ''table'', ''origin_prometheus'']"
| "label_names indexSize = [''cloud_name'', ''database'', ''table'', ''origin_prometheus'']"
| "label_names tableRows = [''cloud_name'', ''database'', ''table'', ''origin_prometheus'']"
| "label_names processListCount = [''cloud_name'', ''user'', ''db'', ''origin_prometheus'']"
| "label_names connCount = [''cloud_name'', ''user'', ''db'', ''origin_prometheus'']"

text \<open>
  The registry maps a gauge vector and a tuple of label values to the current value of that
  series. \<^verbatim>\<open>init\<close> registers the five vectors, which have no series yet, and unregisters
  the default collectors of the client library, so the series of these vectors are all
  that a scrape shows. Every call of \<^verbatim>\<open>WithLabelValues\<close> in \<^verbatim>\<open>main.go\<close> passes four
  values to a vector declared with four label names, and label values are taken to be
  valid UTF-8 (MySQL delivers identifiers as utf8), so the call never panics.

  The state threaded through the collectors holds the registry, the sequence of
  \<^verbatim>\<open>Set\<close> calls made so far (a history, which the program itself does not keep) and the
  lines written by the \<^verbatim>\<open>log\<close> package (format, string arguments, error argument),
  whether by \<^verbatim>\<open>log.Printf\<close> or, before exiting, by \<^verbatim>\<open>log.Fatalf\<close> and \<^verbatim>\<open>log.Fatal\<close>.
\<close>

type_synonym series = "metric \<times> string list"

type_synonym registry = "series \<rightharpoonup> float64"

type_synonym log_line = "string \<times> string list \<times> error"

record state =
  registry :: registry
  set_calls :: "(series \<times> float64) list"
  logs :: "log_line list"

definition init_state :: state where
  "init_state = \<lparr>registry = Map.empty, set_calls = [], logs = []\<rparr>"

text \<open>\<^verbatim>\<open>vec.WithLabelValues(lvs...).Set(v)\<close>: create the series if absent, overwrite its value.\<close>

definition gauge_set :: "metric \<Rightarrow> string list \<Rightarrow> float64 \<Rightarrow> state \<Rightarrow> state" where
  "gauge_set m lvs v st =
     st\<lparr>registry := (registry st)((m, lvs) \<mapsto> v),
        set_calls := set_calls st @ [((m, lvs), v)]\<rparr>"

definition log_Printf :: "log_line \<Rightarrow> state \<Rightarrow> state" where
  "log_Printf l st = st\<lparr>logs := logs st @ [l]\<rparr>"

text \<open>
  What a scrape of \<^verbatim>\<open>/metrics\<close> shows: one sample per series, under the vector's metric
  name, with the label names paired with the label values.
\<close>

definition rendered :: "registry \<Rightarrow> (string \<times> (string \<times> string) list \<times> float64) set" where
  "rendered r = {(metric_name m, zip (label_names m) lvs, v) | m lvs v. r (m, lvs) = Some v}"

section \<open>Storage collection (collectMetrics, first half)\<close>

text \<open>
  A row of the query on \<^verbatim>\<open>information_schema.tables\<close>, with the types of its five
  columns: two strings and three \<^verbatim>\<open>BIGINT\<close> numbers, each possibly NULL (\<open>None\<close>).
\<close>

record table_row =
  table_schema :: "string option"
  table_name :: "string option"
  table_rows :: "int option"
  data_length :: "int option"
  index_length :: "int option"

text \<open>The five destination variables of the scan at line 150.\<close>

record table_vars =
  dbName :: string
  tableName :: string
  tableRowsVal :: "int Null"
  dataSizeBytes :: "float64 Null"
  indexSizeBytes :: "float64 Null"

text \<open>
  Conversions of \<^verbatim>\<open>database/sql\<close>: NULL does not convert to a Go \<^verbatim>\<open>string\<close>; a
  \<^verbatim>\<open>NullInt64\<close> takes NULL as invalid zero and fails outside the 64-bit signed range; a
  \<^verbatim>\<open>NullFloat64\<close> takes NULL as invalid zero and fails when the number rounds beyond the
  largest finite \<^verbatim>\<open>float64\<close>.
\<close>

definition scan_string :: "string option \<Rightarrow> string option" where
  "scan_string c = c"

definition scan_NullInt64 :: "int option \<Rightarrow> int Null option" where
  "scan_NullInt64 c =
     (case c of
        None \<Rightarrow> Some \<lparr>Val = 0, Valid = False\<rparr>
      | Some n \<Rightarrow> if - (2 ^ 63) \<le> n \<and> n < 2 ^ 63 then Some \<lparr>Val = n, Valid = True\<rparr> else None)"

definition scan_NullFloat64 :: "int option \<Rightarrow> float64 Null option" where
  "scan_NullFloat64 c =
     (case c of
        None \<Rightarrow> Some \<lparr>Val = 0, Valid = False\<rparr>
      | Some n \<Rightarrow>
          if \<bar>float64_of_int n\<bar> < 2 ^ 1024 then Some \<lparr>Val = float64_of_int n, Valid = True\<rparr>
          else None)"

text \<open>
  \<^verbatim>\<open>rows.Scan(&dbName, &tableName, &tableRowsVal, &dataSizeBytes, &indexSizeBytes)\<close>:
  columns are converted left to right and the first failure is returned. The variables
  are fresh in every iteration and a failed scan is followed by \<^verbatim>\<open>continue\<close>, so what a
  failed scan had already stored is never read.
\<close>

definition scan_table_row :: "table_row \<Rightarrow> error + table_vars" where
  "scan_table_row row =
     (case scan_string (table_schema row) of None \<Rightarrow> Inl (ScanColumn 0) | Some d \<Rightarrow>
     (case scan_string (table_name row) of None \<Rightarrow> Inl (ScanColumn 1) | Some t \<Rightarrow>
     (case scan_NullInt64 (table_rows row) of None \<Rightarrow> Inl (ScanColumn 2) | Some n \<Rightarrow>
     (case scan_NullFloat64 (data_length row) of None \<Rightarrow> Inl (ScanColumn 3) | Some ds \<Rightarrow>
     (case scan_NullFloat64 (index_length row) of None \<Rightarrow> Inl (ScanColumn 4) | Some ix \<Rightarrow>
        Inr \<lparr>dbName = d, tableName = t, tableRowsVal = n,
             dataSizeBytes = ds, indexSizeBytes = ix\<rparr>)))))"

text \<open>The body of the loop at lines 145 to 162.\<close>

definition storage_row :: "string \<Rightarrow> string \<Rightarrow> table_row \<Rightarrow> state \<Rightarrow> state" where
  "storage_row cloudName originPrometheus row st =
     (case scan_table_row row of
        Inl err \<Rightarrow> log_Printf (''database %s: Error scanning row: %v'', [cloudName], err) st
      | Inr r \<Rightarrow>
          let lvs = [cloudName, dbName r, tableName r, originPrometheus];
              st1 = gauge_set tableSize lvs (Val (dataSizeBytes r)) st;
              st2 = gauge_set indexSize lvs (Val (indexSizeBytes r)) st1
          in if Valid (tableRowsVal r)
             then gauge_set tableRows lvs (float64_of_int (Val (tableRowsVal r))) st2
             else gauge_set tableRows lvs 0 st2)"

section \<open>Process-list collection (collectMetrics, second half)\<close>

text \<open>
  The shape of a \<^verbatim>\<open>SHOW PROCESSLIST\<close> row depends on the server, so such a row is the list
  of its column values as the text protocol delivers them: NULL, or the text of the value.
\<close>

type_synonym cell = "string option"

text \<open>
  \<^verbatim>\<open>strconv.ParseInt(s, 10, 64)\<close>, which \<^verbatim>\<open>database/sql\<close> uses to store a column in a Go
  \<^verbatim>\<open>int\<close>: an optional sign, at least one decimal digit, nothing else, and a value in the
  64-bit signed range.
\<close>

definition digit_val :: "char \<Rightarrow> nat option" where
  "digit_val c =
     (let n = (of_char c :: nat) in if 48 \<le> n \<and> n \<le> 57 then Some (n - 48) else None)"

fun parse_digits :: "nat \<Rightarrow> string \<Rightarrow> nat option" where
  "parse_digits acc [] = Some acc"
| "parse_digits acc (c # cs) =
     (case digit_val c of None \<Rightarrow> None | Some d \<Rightarrow> parse_digits (acc * 10 + d) cs)"

definition ParseInt :: "string \<Rightarrow> int option" where
  "ParseInt s =
     (case s of
        [] \<Rightarrow> None
      | c # cs \<Rightarrow>
          let neg = (c = CHR ''-'');
              ds = (if c = CHR ''+'' \<or> c = CHR ''-'' then cs else s)
          in if ds = [] then None
             else (case parse_digits 0 ds of
                     None \<Rightarrow> None
                   | Some n \<Rightarrow>
                       let v = (if neg then - int n else int n)
                       in if - (2 ^ 63) \<le> v \<and> v < 2 ^ 63 then Some v else None))"

definition scan_int :: "cell \<Rightarrow> int option" where
  "scan_int c = (case c of None \<Rightarrow> None | Some s \<Rightarrow> ParseInt s)"

definition scan_NullString :: "cell \<Rightarrow> string Null" where
  "scan_NullString c =
     (case c of None \<Rightarrow> \<lparr>Val = [], Valid = False\<rparr> | Some s \<Rightarrow> \<lparr>Val = s, Valid = True\<rparr>)"

text \<open>
  The destination variables \<^verbatim>\<open>id\<close>, \<^verbatim>\<open>user\<close> and \<^verbatim>\<open>db\<close> of the scans at lines 180 and 181.
  The others (\<^verbatim>\<open>host\<close>, \<^verbatim>\<open>command\<close>, \<^verbatim>\<open>state\<close>, \<^verbatim>\<open>info\<close>, \<^verbatim>\<open>progress\<close> of type
  \<^verbatim>\<open>NullString\<close>, and \<^verbatim>\<open>time\<close> of type \<^verbatim>\<open>interface{}\<close>) take every column value, so
  only the number of columns and the column \<^verbatim>\<open>id\<close> can make a scan fail.
\<close>

record process_vars =
  proc_id :: int
  proc_user :: "string Null"
  proc_db :: "string Null"

text \<open>\<^verbatim>\<open>rows.Scan(&id, &user, &host, &db, &command, &time, &state, &info)\<close>\<close>

fun scan8 :: "cell list \<Rightarrow> error + process_vars" where
  "scan8 [c_id, c_user, c_host, c_db, c_command, c_time, c_state, c_info] =
     (case scan_int c_id of
        None \<Rightarrow> Inl (ScanColumn 0)
      | Some i \<Rightarrow> Inr \<lparr>proc_id = i, proc_user = scan_NullString c_user,
                      proc_db = scan_NullString c_db\<rparr>)"
| "scan8 row = Inl (ScanArity (length row) 8)"

text \<open>\<^verbatim>\<open>rows.Scan(&id, &user, &host, &db, &command, &time, &state, &info, &progress)\<close>\<close>

fun scan9 :: "cell list \<Rightarrow> error + process_vars" where
  "scan9 [c_id, c_user, c_host, c_db, c_command, c_time, c_state, c_info, c_progress] =
     (case scan_int c_id of
        None \<Rightarrow> Inl (ScanColumn 0)
      | Some i \<Rightarrow> Inr \<lparr>proc_id = i, proc_user = scan_NullString c_user,
                      proc_db = scan_NullString c_db\<rparr>)"
| "scan9 row = Inl (ScanArity (length row) 9)"

text \<open>
  Lines 180 to 184: the scan into eight destinations and, when it fails, the scan into
  nine; \<open>None\<close> is the \<^verbatim>\<open>continue\<close>. A first scan that fails stores nothing (it fails on
  the number of columns or on column 0), so the variables after a successful second scan
  are those of the second scan.
\<close>

definition scan_process_row :: "cell list \<Rightarrow> process_vars option" where
  "scan_process_row row =
     (case scan8 row of
        Inr r \<Rightarrow> Some r
      | Inl err \<Rightarrow> (case scan9 row of Inr r \<Rightarrow> Some r | Inl err1 \<Rightarrow> None))"

definition userStr :: "process_vars \<Rightarrow> string" where
  "userStr r = (if Valid (proc_user r) then Val (proc_user r) else ''UNKNOWN_USER'')"

definition dbStr :: "process_vars \<Rightarrow> string" where
  "dbStr r = (if Valid (proc_db r) then Val (proc_db r) else ''UNKNOWN_DB'')"

text \<open>
  \<^verbatim>\<open>userDbCount\<close>, a \<^verbatim>\<open>map[string]map[string]int\<close>, as an association list of association
  lists in order of insertion. A count never exceeds the number of rows of one result
  set, far below the range of a Go \<^verbatim>\<open>int\<close>, so it is an unbounded integer here.
\<close>

type_synonym count_map = "(string \<times> (string \<times> int) list) list"

text \<open>\<^verbatim>\<open>userDbCount[u][d]\<close>, which reads 0 where a key is missing.\<close>

definition count_of :: "count_map \<Rightarrow> string \<Rightarrow> string \<Rightarrow> int" where
  "count_of m u d =
     (case map_of m u of
        None \<Rightarrow> 0
      | Some dbCounts \<Rightarrow> (case map_of dbCounts d of None \<Rightarrow> 0 | Some c \<Rightarrow> c))"

text \<open>Lines 196 to 199.\<close>

definition incr :: "string \<Rightarrow> string \<Rightarrow> count_map \<Rightarrow> count_map" where
  "incr u d m =
     (let m1 = (case map_of m u of None \<Rightarrow> AList.update u [] m | Some dbCounts \<Rightarrow> m);
          dbCounts = (case map_of m1 u of None \<Rightarrow> [] | Some dbCounts \<Rightarrow> dbCounts)
      in AList.update u (AList.update d (count_of m1 u d + 1) dbCounts) m1)"

text \<open>The body of the loop at lines 174 to 200.\<close>

definition count_row :: "cell list \<Rightarrow> count_map \<Rightarrow> count_map" where
  "count_row row m =
     (case scan_process_row row of
        None \<Rightarrow> m
      | Some r \<Rightarrow> incr (userStr r) (dbStr r) m)"

text \<open>
  Lines 203 to 207. Go visits the entries of a map in an unspecified order; the order
  taken here is that of insertion. The entries have distinct keys, so the registry is the
  same for every order (lemma \<open>export_counts_any_order\<close>).
\<close>

definition export_counts :: "string \<Rightarrow> string \<Rightarrow> count_map \<Rightarrow> state \<Rightarrow> state" where
  "export_counts cloudName originPrometheus userDbCount st =
     fold (\<lambda>(user, dbCounts).
             fold (\<lambda>(db, count).
                     gauge_set processListCount [cloudName, user, db, originPrometheus]
                       (float64_of_int count))
                  dbCounts)
          userDbCount st"

section \<open>collectMetrics and collectConnCount\<close>

text \<open>
  The database is the environment: a collector is given the outcome of each query it
  issues, either the error of \<^verbatim>\<open>db.Query\<close> or the rows that \<^verbatim>\<open>rows.Next\<close> delivers.
\<close>

definition collectMetrics ::
  "string \<Rightarrow> string \<Rightarrow> error + table_row list \<Rightarrow> error + cell list list \<Rightarrow> state \<Rightarrow> state" where
  "collectMetrics cloudName originPrometheus tables processlist st =
     (case tables of
        Inl err \<Rightarrow>
          log_Printf (''database %s: Error executing table size query: %v'', [cloudName], err) st
      | Inr rows \<Rightarrow>
          let st1 = fold (storage_row cloudName originPrometheus) rows st
          in (case processlist of
                Inl err \<Rightarrow>
                  log_Printf (''database %s: Error executing SHOW PROCESSLIST: %v'', [cloudName], err)
                    st1
              | Inr prows \<Rightarrow>
                  export_counts cloudName originPrometheus (fold count_row prows []) st1))"

text \<open>
  A row of the connection-count query: \<^verbatim>\<open>db\<close>, \<^verbatim>\<open>user\<close> and \<^verbatim>\<open>count(*)\<close>, with their
  column types.
\<close>

record conn_row =
  db_col :: "string option"
  user_col :: "string option"
  count_col :: "int option"

record conn_vars =
  conn_dbName :: "string Null"
  conn_userName :: "string Null"
  conn_count :: int

text \<open>\<^verbatim>\<open>rows.Scan(&dbName, &userName, &count)\<close>, with \<^verbatim>\<open>count\<close> a Go \<^verbatim>\<open>int\<close> of 64 bits.\<close>

definition scan_conn_row :: "conn_row \<Rightarrow> error + conn_vars" where
  "scan_conn_row row =
     (case count_col row of
        None \<Rightarrow> Inl (ScanColumn 2)
      | Some n \<Rightarrow>
          if - (2 ^ 63) \<le> n \<and> n < 2 ^ 63
          then Inr \<lparr>conn_dbName = scan_NullString (db_col row),
                    conn_userName = scan_NullString (user_col row),
                    conn_count = n\<rparr>
          else Inl (ScanColumn 2))"

text \<open>The body of the loop at lines 103 to 123.\<close>

definition conn_row_step :: "string \<Rightarrow> string \<Rightarrow> conn_row \<Rightarrow> state \<Rightarrow> state" where
  "conn_row_step cloudName originPrometheus row st =
     (case scan_conn_row row of
        Inl err \<Rightarrow>
          log_Printf (''database %s: Error scanning connection count row: %v'', [cloudName], err) st
      | Inr r \<Rightarrow>
          let db = (if Valid (conn_dbName r) then Val (conn_dbName r) else ''UNKNOWN_DB'');
              user = (if Valid (conn_userName r) then Val (conn_userName r) else ''UNKNOWN_USER'')
          in gauge_set connCount [cloudName, user, db, originPrometheus]
               (float64_of_int (conn_count r)) st)"

definition collectConnCount :: "string \<Rightarrow> string \<Rightarrow> error + conn_row list \<Rightarrow> state \<Rightarrow> state" where
  "collectConnCount cloudName originPrometheus conns st =
     (case conns of
        Inl err \<Rightarrow>
          log_Printf (''database %s: Error executing connection count query: %v'', [cloudName], err)
            st
      | Inr rows \<Rightarrow> fold (conn_row_step cloudName originPrometheus) rows st)"

text \<open>
  The connection-count query of lines 90 to 96, over the connections of the server, each
  given by its \<^verbatim>\<open>db\<close> and \<^verbatim>\<open>user\<close> columns: \<^verbatim>\<open>GROUP BY db, user\<close> with \<^verbatim>\<open>count(*)\<close>,
  \<^verbatim>\<open>ORDER BY 3 DESC\<close>, \<^verbatim>\<open>LIMIT 20\<close>. SQL leaves the order among equal counts open; the
  sort here is stable.
\<close>

type_synonym connection = "string option \<times> string option"





section \<open>main\<close>

text \<open>An element of \<^verbatim>\<open>Config.Databases\<close>.\<close>

record target =
  Name :: string
  DSN :: string
  OriginPrometheus :: string

text \<open>
  The goroutine that \<^verbatim>\<open>main\<close> starts for a target (line 217) first calls \<^verbatim>\<open>sql.Open\<close>
  and then runs its two loops.
\<close>

datatype worker_pc = Opening | Polling

text \<open>
  The process: its exit status once \<^verbatim>\<open>os.Exit\<close> was called (by \<^verbatim>\<open>log.Fatalf\<close> or
  \<^verbatim>\<open>log.Fatal\<close>), the targets whose goroutine \<^verbatim>\<open>main\<close> has not started yet, whether
  \<^verbatim>\<open>http.ListenAndServe\<close> has bound the port, the goroutines started, the state of the
  collectors, and the registry contents sent in answer to each scrape so far.
\<close>

record process =
  exit_status :: "nat option"
  unstarted :: "target list"
  listening :: bool
  workers :: "(target \<times> worker_pc) list"
  collector :: state
  served :: "registry list"

text \<open>\<^verbatim>\<open>main\<close> up to the loop at line 216, given the outcome of \<^verbatim>\<open>readConfig\<close>.\<close>

definition start :: "error + target list \<Rightarrow> process" where
  "start config =
     (case config of
        Inl err \<Rightarrow>
          \<lparr>exit_status = Some 1, unstarted = [], listening = False, workers = [],
           collector = log_Printf (''Error reading config file: %v'', [], err) init_state,
           served = []\<rparr>
      | Inr databases \<Rightarrow>
          \<lparr>exit_status = None, unstarted = databases, listening = False, workers = [],
           collector = init_state, served = []\<rparr>)"

text \<open>
  Go gives no order between the statements of different goroutines, so a run of the
  process is a sequence of events, each the next move of one goroutine or a request from
  outside:
  \<^item> \<open>MainStep failure\<close>: \<^verbatim>\<open>main\<close> executes its next statement, which starts the goroutine
    of the next target or, after the loop, calls \<^verbatim>\<open>http.ListenAndServe\<close>, which binds the
    port and serves, or returns the given error to \<^verbatim>\<open>log.Fatal\<close>;
  \<^item> \<open>Open i failure\<close>: goroutine \<open>i\<close> calls \<^verbatim>\<open>sql.Open\<close> (lines 222 to 226) on the
    \<^verbatim>\<open>DSN\<close> of its target followed by \<^verbatim>\<open>?timeout=30s\<close>; whether the driver accepts that
    string is the driver's matter, so the event gives the error returned, if any;
  \<^item> \<open>Metrics i tables processlist\<close>: goroutine \<open>i\<close> runs one iteration of the loop at
    line 241, the queries having the given outcomes;
  \<^item> \<open>Conns i conns\<close>: one iteration of the loop at line 234;
  \<^item> \<open>Scrape\<close>: a request for \<^verbatim>\<open>/metrics\<close> arrives.
  A call of a collector is taken as one step. The line of \<^verbatim>\<open>log.Fatal(err)\<close> is recorded
  with the format \<^verbatim>\<open>%v\<close>. Once \<^verbatim>\<open>os.Exit\<close> was called there is no process left, and
  no event has any effect.
\<close>

datatype event =
    MainStep "error option"
  | Open nat "error option"
  | Metrics nat "error + table_row list" "error + cell list list"
  | Conns nat "error + conn_row list"
  | Scrape

definition step :: "event \<Rightarrow> process \<Rightarrow> process" where
  "step ev p =
     (if exit_status p \<noteq> None then p
      else
        (case ev of
           MainStep failure \<Rightarrow>
             (case unstarted p of
                dbConfig # rest \<Rightarrow>
                  p\<lparr>unstarted := rest, workers := workers p @ [(dbConfig, Opening)]\<rparr>
              | [] \<Rightarrow>
                  if listening p then p
                  else
                    (case failure of
                       None \<Rightarrow> p\<lparr>listening := True\<rparr>
                     | Some err \<Rightarrow>
                         p\<lparr>exit_status := Some 1,
                           collector := log_Printf (''%v'', [], err) (collector p)\<rparr>))
         | Open i failure \<Rightarrow>
             if i < length (workers p) \<and> snd (workers p ! i) = Opening
             then
               (let dbConfig = fst (workers p ! i)
                in case failure of
                     Some err \<Rightarrow>
                       p\<lparr>exit_status := Some 1,
                         collector :=
                           log_Printf (''Error opening database %s: %v'', [Name dbConfig], err)
                             (collector p)\<rparr>
                   | None \<Rightarrow> p\<lparr>workers := (workers p)[i := (dbConfig, Polling)]\<rparr>)
             else p
         | Metrics i tables processlist \<Rightarrow>
             if i < length (workers p) \<and> snd (workers p ! i) = Polling
             then
               (let dbConfig = fst (workers p ! i)
                in p\<lparr>collector :=
                       collectMetrics (Name dbConfig) (OriginPrometheus dbConfig)
                         tables processlist (collector p)\<rparr>)
             else p
         | Conns i conns \<Rightarrow>
             if i < length (workers p) \<and> snd (workers p ! i) = Polling
             then
               (let dbConfig = fst (workers p ! i)
                in p\<lparr>collector :=
                       collectConnCount (Name dbConfig) (OriginPrometheus dbConfig)
                         conns (collector p)\<rparr>)
             else p
         | Scrape \<Rightarrow>
             if listening p then p\<lparr>served := served p @ [registry (collector p)]\<rparr> else p))"

definition run :: "event list \<Rightarrow> process \<Rightarrow> process" where
  "run evs p = fold step evs p"

section \<open>Notions used to state the properties\<close>

text \<open>
  The effect of a collector on the state: the \<^verbatim>\<open>Set\<close> calls it makes, in order, and the
  lines it logs. The registry after the calls holds, for each series, the value of the last
  call for it. A collector started in \<open>init_state\<close> leaves its calls and lines in the
  state.
\<close>

definition emit :: "(series \<times> float64) list \<Rightarrow> log_line list \<Rightarrow> state \<Rightarrow> state" where
  "emit W L st =
     \<lparr>registry = registry st ++ map_of (rev W), set_calls = set_calls st @ W, logs = logs st @ L\<rparr>"

definition calls_of :: "(state \<Rightarrow> state) \<Rightarrow> (series \<times> float64) list" where
  "calls_of f = set_calls (f init_state)"

definition lines_of :: "(state \<Rightarrow> state) \<Rightarrow> log_line list" where
  "lines_of f = logs (f init_state)"

definition collecting :: "(state \<Rightarrow> state) \<Rightarrow> bool" where
  "collecting f \<longleftrightarrow> (\<forall>st. f st = emit (calls_of f) (lines_of f) st)"

text \<open>
  The label values of a storage row, and the gauge value for a numeric column: 0 for NULL,
  else the nearest \<^verbatim>\<open>float64\<close>.
\<close>

definition table_key :: "string \<Rightarrow> string \<Rightarrow> table_vars \<Rightarrow> string list" where
  "table_key cloudName originPrometheus r = [cloudName, dbName r, tableName r, originPrometheus]"

definition column_value :: "int option \<Rightarrow> float64" where
  "column_value c = (case c of None \<Rightarrow> 0 | Some n \<Rightarrow> float64_of_int n)"

text \<open>
  The entries of \<^verbatim>\<open>userDbCount\<close> in the order in which \<open>export_counts\<close> visits them, the
  \<^verbatim>\<open>Set\<close> call made for an entry, the calls of the process-list half of \<open>collectMetrics\<close>,
  and the property that no key occurs twice in the map or in one of its inner maps.
\<close>

definition entries :: "count_map \<Rightarrow> ((string \<times> string) \<times> int) list" where
  "entries m = concat (map (\<lambda>(u, dbCounts). map (\<lambda>(d, c). ((u, d), c)) dbCounts) m)"

definition count_call :: "string \<Rightarrow> string \<Rightarrow> (string \<times> string) \<times> int \<Rightarrow> series \<times> float64" where
  "count_call cn og e = ((processListCount, [cn, fst (fst e), snd (fst e), og]), float64_of_int (snd e))"

definition processlist_calls :: "string \<Rightarrow> string \<Rightarrow> error + cell list list \<Rightarrow> (series \<times> float64) list" where
  "processlist_calls cn og processlist =
     (case processlist of
        Inl err \<Rightarrow> []
      | Inr prows \<Rightarrow> calls_of (export_counts cn og (fold count_row prows [])))"

definition distinct_keys :: "count_map \<Rightarrow> bool" where
  "distinct_keys m \<longleftrightarrow> distinct (map fst m) \<and> list_all (\<lambda>p. distinct (map fst (snd p))) m"


definition process_key :: "cell list \<Rightarrow> (string \<times> string) option" where
  "process_key row = map_option (\<lambda>r. (userStr r, dbStr r)) (scan_process_row row)"

definition group_size :: "cell list list \<Rightarrow> string \<times> string \<Rightarrow> nat" where
  "group_size prows k = length (filter (\<lambda>row. process_key row = Some k) prows)"

definition lookup_count :: "count_map \<Rightarrow> string \<Rightarrow> string \<Rightarrow> int option" where
  "lookup_count m u d = (case map_of m u of None \<Rightarrow> None | Some dbCounts \<Rightarrow> map_of dbCounts d)"

text \<open>
  The \<^verbatim>\<open>Set\<close> calls made while the process goes through the events \<open>evs\<close> from \<open>p\<close>.
\<close>

definition calls_during :: "event list \<Rightarrow> process \<Rightarrow> (series \<times> float64) list" where
  "calls_during evs p = drop (length (set_calls (collector p))) (set_calls (collector (run evs p)))"

section \<open>Concrete inputs\<close>

text \<open>
  A table with statistics, and a view, for which the statistics columns are NULL.
\<close>

definition users_row :: table_row where
  "users_row = \<lparr>table_schema = Some ''app'', table_name = Some ''users'', table_rows = Some 100,
                 data_length = Some 2048, index_length = Some 512\<rparr>"


text \<open>
  A configured target, and the process once the goroutine of the target has opened its
  handle.
\<close>

definition shard1 :: target where
  "shard1 = \<lparr>Name = ''shard1'', DSN = ''exporter:secret@tcp(db1:3306)/'', OriginPrometheus = ''prod''\<rparr>"

definition shard1_polling :: process where
  "shard1_polling = run [MainStep None, Open 0 None] (start (Inr [shard1]))"






section \<open>Collectors as sequences of Set calls\<close>

text \<open>
  Every collector only appends \<^verbatim>\<open>Set\<close> calls and log lines: it is \<open>emit W L\<close> for the
  calls \<open>W\<close> and lines \<open>L\<close> that the query outcomes determine.
\<close>

lemma emit_fields [simp]:
  "registry (emit W L st) = registry st ++ map_of (rev W)"
  "set_calls (emit W L st) = set_calls st @ W"
  "logs (emit W L st) = logs st @ L"
  by (simp_all add: emit_def)

lemma emit_emit: "emit W' L' (emit W L st) = emit (W @ W') (L @ L') st"
  by (simp add: emit_def)

lemma emit_nil [simp]: "emit [] [] st = st"
  by (simp add: emit_def)

lemma collectingI:
  assumes "\<And>st. f st = emit W L st"
  shows "collecting f" and "calls_of f = W" and "lines_of f = L"
proof -
  show c: "calls_of f = W" by (simp add: calls_of_def assms init_state_def)
  show l: "lines_of f = L" by (simp add: lines_of_def assms init_state_def)
  show "collecting f" by (simp add: collecting_def c l assms)
qed

lemma collectingD: "collecting f \<Longrightarrow> f st = emit (calls_of f) (lines_of f) st"
  by (simp add: collecting_def)

lemma gauge_set_emit: "gauge_set m lvs v st = emit [((m, lvs), v)] [] st"
  by (simp add: gauge_set_def emit_def map_add_upd_left)

lemma log_Printf_emit: "log_Printf l st = emit [] [l] st"
  by (simp add: log_Printf_def emit_def)

lemma fold_emit:
  assumes "\<And>x st. f x st = emit (W x) (L x) st"
  shows "fold f xs st = emit (concat (map W xs)) (concat (map L xs)) st"
  using assms by (induction xs arbitrary: st) (simp_all add: emit_emit)

lemma fold_collecting:
  assumes "\<And>x. collecting (f x)"
  shows "fold f xs st = emit (concat (map (\<lambda>x. calls_of (f x)) xs)) (concat (map (\<lambda>x. lines_of (f x)) xs)) st"
  by (rule fold_emit) (rule collectingD [OF assms])

lemma map_add_twice: "(m ++ n) ++ n = m ++ n"
  by (rule ext) (simp add: map_add_def split: option.splits)

lemma registry_emit_twice: "registry (emit W L' (emit W L st)) = registry (emit W L st)"
  by (simp add: map_add_twice)

lemma collecting_twice: "collecting f \<Longrightarrow> registry (f (f st)) = registry (f st)"
proof -
  assume "collecting f"
  then have e: "\<And>s. f s = emit (calls_of f) (lines_of f) s"
    by (simp add: collecting_def)
  show ?thesis
    by (simp only: e registry_emit_twice)
qed

lemma map_of_rev_other_metric:
  assumes "\<And>c. c \<in> set P \<Longrightarrow> fst (fst c) = m'" and "m \<noteq> m'"
  shows "map_of (rev P) (m, lvs) = None"
proof -
  have "(m, lvs) \<notin> fst ` set (rev P)"
    using assms by force
  then show ?thesis by (simp add: map_of_eq_None_iff)
qed


lemma map_of_rev_perm:
  assumes "distinct (map fst xs)" and "mset ys = mset xs"
  shows "map_of (rev ys) = map_of (rev xs)"
proof -
  have "mset (map fst ys) = mset (map fst xs)"
    using assms(2) by simp
  then have dy: "distinct (map fst ys)"
    using assms(1) mset_eq_imp_distinct_iff by blast
  have s: "set ys = set xs"
    using assms(2) by (rule mset_eq_setD)
  have "map_of (rev ys) = map_of (rev xs) \<longleftrightarrow> set (rev ys) = set (rev xs)"
    by (rule map_of_inject_set) (simp_all add: rev_map [symmetric] dy assms(1))
  with s show ?thesis by simp
qed

section \<open>Conversions and scans\<close>

lemma f64_small: "\<bar>n\<bar> \<le> 2 ^ 53 \<Longrightarrow> float64_of_int n = n"
  by (simp add: float64_of_int_def)


lemma scan_NullFloat64_value: "scan_NullFloat64 c = Some x \<Longrightarrow> Val x = column_value c"
  by (auto simp: scan_NullFloat64_def column_value_def split: option.splits if_splits)

lemma scan_NullInt64_value:
  "scan_NullInt64 c = Some x \<Longrightarrow>
     (if Valid x then float64_of_int (Val x) else 0) = column_value c"
  by (auto simp: scan_NullInt64_def column_value_def split: option.splits if_splits)

lemma scan_table_row_Inr:
  "scan_table_row row = Inr r \<longleftrightarrow>
     (\<exists>d t n ds ix. table_schema row = Some d \<and> table_name row = Some t \<and>
        scan_NullInt64 (table_rows row) = Some n \<and>
        scan_NullFloat64 (data_length row) = Some ds \<and>
        scan_NullFloat64 (index_length row) = Some ix \<and>
        r = \<lparr>dbName = d, tableName = t, tableRowsVal = n, dataSizeBytes = ds, indexSizeBytes = ix\<rparr>)"
  by (auto simp: scan_table_row_def scan_string_def split: option.splits)


lemma scan_users_row:
  "scan_table_row users_row =
     Inr \<lparr>dbName = ''app'', tableName = ''users'', tableRowsVal = \<lparr>Val = 100, Valid = True\<rparr>,
          dataSizeBytes = \<lparr>Val = 2048, Valid = True\<rparr>,
          indexSizeBytes = \<lparr>Val = 512, Valid = True\<rparr>\<rparr>"
  by (simp add: users_row_def scan_table_row_def scan_string_def scan_NullInt64_def
        scan_NullFloat64_def f64_small)










section \<open>The calls of a storage row\<close>

lemma storage_row_emit:
  "storage_row cn og row st =
     emit (case scan_table_row row of
             Inl err \<Rightarrow> []
           | Inr r \<Rightarrow>
               [((tableSize, table_key cn og r), Val (dataSizeBytes r)),
                ((indexSize, table_key cn og r), Val (indexSizeBytes r)),
                ((tableRows, table_key cn og r),
                 if Valid (tableRowsVal r) then float64_of_int (Val (tableRowsVal r)) else 0)])
          (case scan_table_row row of
             Inl err \<Rightarrow> [(''database %s: Error scanning row: %v'', [cn], err)]
           | Inr r \<Rightarrow> [])
          st"
  by (simp add: storage_row_def table_key_def gauge_set_emit log_Printf_emit emit_emit Let_def
           split: sum.splits)

lemmas storage_row_collecting = collectingI [of "storage_row cn og row" for cn og row, OF storage_row_emit]

lemma storage_rows_emit:
  "fold (storage_row cn og) rows st =
     emit (concat (map (\<lambda>row. calls_of (storage_row cn og row)) rows))
          (concat (map (\<lambda>row. lines_of (storage_row cn og row)) rows)) st"
  by (rule fold_collecting) (rule storage_row_collecting(1))

lemma storage_row_calls_valid:
  assumes "scan_table_row row = Inr r"
  shows "table_schema row = Some (dbName r) \<and> table_name row = Some (tableName r) \<and>
         calls_of (storage_row cn og row) =
           [((tableSize, [cn, dbName r, tableName r, og]), column_value (data_length row)),
            ((indexSize, [cn, dbName r, tableName r, og]), column_value (index_length row)),
            ((tableRows, [cn, dbName r, tableName r, og]), column_value (table_rows row))]"
proof -
  from assms obtain d t n ds ix where
    c: "table_schema row = Some d" "table_name row = Some t"
       "scan_NullInt64 (table_rows row) = Some n"
       "scan_NullFloat64 (data_length row) = Some ds"
       "scan_NullFloat64 (index_length row) = Some ix"
    and r: "r = \<lparr>dbName = d, tableName = t, tableRowsVal = n, dataSizeBytes = ds, indexSizeBytes = ix\<rparr>"
    by (auto simp: scan_table_row_Inr)
  have "calls_of (storage_row cn og row) =
          [((tableSize, table_key cn og r), Val (dataSizeBytes r)),
           ((indexSize, table_key cn og r), Val (indexSizeBytes r)),
           ((tableRows, table_key cn og r),
            if Valid (tableRowsVal r) then float64_of_int (Val (tableRowsVal r)) else 0)]"
    by (simp add: storage_row_collecting(2) assms)
  then show ?thesis
    using c scan_NullFloat64_value [OF c(4)] scan_NullFloat64_value [OF c(5)]
      scan_NullInt64_value [OF c(3)]
    by (auto simp: r table_key_def split: if_splits)
qed

lemma users_row_calls:
  "calls_of (storage_row cn og users_row) =
     [((tableSize, [cn, ''app'', ''users'', og]), 2048),
      ((indexSize, [cn, ''app'', ''users'', og]), 512),
      ((tableRows, [cn, ''app'', ''users'', og]), 100)]"
  using storage_row_calls_valid [OF scan_users_row, of cn og]
  by (simp add: users_row_def column_value_def f64_small)

section \<open>The count map\<close>

text \<open>
  \<^verbatim>\<open>userDbCount\<close> after the loop holds, for each pair of labels, the number of rows counted
  under it, and no key twice.
\<close>

lemma count_of_lookup: "count_of m u d = (case lookup_count m u d of None \<Rightarrow> 0 | Some c \<Rightarrow> c)"
  by (simp add: count_of_def lookup_count_def split: option.splits)

lemma lookup_count_incr:
  "lookup_count (incr u d m) u' d' =
     (if u' = u \<and> d' = d then Some (count_of m u d + 1) else lookup_count m u' d')"
  by (auto simp: incr_def lookup_count_def count_of_def Let_def AList.update_conv'
           split: option.splits)

lemma count_of_incr:
  "count_of (incr u d m) u' d' = count_of m u' d' + (if u' = u \<and> d' = d then 1 else 0)"
  by (simp add: count_of_lookup lookup_count_incr)

lemma count_row_key:
  "count_row row m = (case process_key row of None \<Rightarrow> m | Some k \<Rightarrow> incr (fst k) (snd k) m)"
  by (simp add: count_row_def process_key_def split: option.splits)

lemma group_size_Nil: "group_size [] k = 0"
  by (simp add: group_size_def)

lemma group_size_Cons:
  "group_size (row # rows) k = (if process_key row = Some k then 1 else 0) + group_size rows k"
  by (simp add: group_size_def)


lemma lookup_count_fold:
  "lookup_count (fold count_row rows m) u d =
     (if group_size rows (u, d) = 0 then lookup_count m u d
      else Some (count_of m u d + int (group_size rows (u, d))))"
proof (induction rows arbitrary: m)
  case Nil
  then show ?case by (simp add: group_size_Nil)
next
  case (Cons row rows)
  show ?case
  proof (cases "process_key row")
    case None
    then have "count_row row m = m"
      by (simp add: count_row_key [of row m])
    with None show ?thesis
      by (simp add: Cons.IH group_size_Cons)
  next
    case (Some k)
    then have "count_row row m = incr (fst k) (snd k) m"
      by (simp add: count_row_key [of row m])
    with Some show ?thesis
      by (cases k) (auto simp: Cons.IH group_size_Cons lookup_count_incr count_of_incr)
  qed
qed

lemma lookup_count_counted:
  "lookup_count (fold count_row rows []) u d =
     (if group_size rows (u, d) = 0 then None else Some (int (group_size rows (u, d))))"
  by (simp add: lookup_count_fold) (simp add: lookup_count_def count_of_def)

lemma set_update_subset: "set (AList.update k v al) \<subseteq> insert (k, v) (set al)"
  by (induction al) auto

lemma distinct_keys_Nil: "distinct_keys []"
  by (simp add: distinct_keys_def)

lemma distinct_keys_update:
  assumes "distinct_keys m" and "distinct (map fst v)"
  shows "distinct_keys (AList.update k v m)"
proof -
  have "\<forall>p\<in>set (AList.update k v m). distinct (map fst (snd p))"
    using assms set_update_subset [of k v m] by (auto simp: distinct_keys_def list_all_iff)
  then show ?thesis
    using assms by (simp add: distinct_keys_def list_all_iff AList.distinct_update)
qed

lemma distinct_keys_lookup:
  assumes "distinct_keys m" and "map_of m u = Some dbCounts"
  shows "distinct (map fst dbCounts)"
  using assms map_of_SomeD [OF assms(2)] by (auto simp: distinct_keys_def list_all_iff)

lemma distinct_keys_incr: "distinct_keys m \<Longrightarrow> distinct_keys (incr u d m)"
proof -
  assume m: "distinct_keys m"
  define m1 where "m1 = (case map_of m u of None \<Rightarrow> AList.update u [] m | Some dbCounts \<Rightarrow> m)"
  define dbCounts where
    "dbCounts = (case map_of m1 u of None \<Rightarrow> [] | Some dbCounts \<Rightarrow> dbCounts)"
  have m1: "distinct_keys m1"
    using m by (auto simp: m1_def distinct_keys_update split: option.splits)
  have "distinct (map fst dbCounts)"
    using distinct_keys_lookup [OF m1] by (auto simp: dbCounts_def split: option.splits)
  then have "distinct (map fst (AList.update d (count_of m1 u d + 1) dbCounts))"
    by (rule AList.distinct_update)
  with m1 have "distinct_keys (AList.update u (AList.update d (count_of m1 u d + 1) dbCounts) m1)"
    by (rule distinct_keys_update)
  then show ?thesis
    by (simp add: incr_def m1_def dbCounts_def Let_def)
qed

lemma distinct_keys_fold: "distinct_keys m \<Longrightarrow> distinct_keys (fold count_row rows m)"
proof (induction rows arbitrary: m)
  case Nil
  then show ?case by simp
next
  case (Cons row rows)
  have "distinct_keys (count_row row m)"
    using Cons.prems by (simp add: count_row_key [of row m] distinct_keys_incr split: option.splits)
  then show ?case by (simp add: Cons.IH)
qed

lemma entries_Cons:
  "entries (p # m) = map (\<lambda>q. ((fst p, fst q), snd q)) (snd p) @ entries m"
  by (simp add: entries_def case_prod_beta)

lemma entries_member:
  "((u, d), c) \<in> set (entries m) \<longleftrightarrow> (\<exists>dbCounts. (u, dbCounts) \<in> set m \<and> (d, c) \<in> set dbCounts)"
  by (induction m) (auto simp: entries_Cons entries_def)

lemma entries_keys_fst: "k \<in> set (map fst (entries m)) \<Longrightarrow> fst k \<in> fst ` set m"
proof -
  assume "k \<in> set (map fst (entries m))"
  then obtain c where "(k, c) \<in> set (entries m)" by auto
  then have "((fst k, snd k), c) \<in> set (entries m)" by simp
  then obtain dbCounts where "(fst k, dbCounts) \<in> set m"
    unfolding entries_member by blast
  then show ?thesis by force
qed

lemma entries_distinct: "distinct_keys m \<Longrightarrow> distinct (map fst (entries m))"
proof (induction m)
  case Nil
  then show ?case by (simp add: entries_def)
next
  case (Cons p m)
  from Cons.prems have p: "distinct (map fst (snd p))" and notin: "fst p \<notin> fst ` set m"
    and m: "distinct_keys m"
    by (auto simp: distinct_keys_def)
  have a: "map fst (map (\<lambda>q. ((fst p, fst q), snd q)) (snd p)) = map (Pair (fst p)) (map fst (snd p))"
    by simp
  have "distinct (map (Pair (fst p)) (map fst (snd p)))"
    using p by (simp add: distinct_map inj_on_def)
  moreover have "set (map (Pair (fst p)) (map fst (snd p))) \<inter> set (map fst (entries m)) = {}"
    using notin entries_keys_fst [of _ m] by fastforce
  ultimately show ?case
    using Cons.IH [OF m] by (simp only: entries_Cons map_append a distinct_append)
qed

lemma entries_lookup:
  assumes "distinct_keys m"
  shows "((u, d), c) \<in> set (entries m) \<longleftrightarrow> lookup_count m u d = Some c"
proof
  assume "((u, d), c) \<in> set (entries m)"
  then obtain dbCounts where a: "(u, dbCounts) \<in> set m" "(d, c) \<in> set dbCounts"
    by (auto simp: entries_member)
  from assms a(1) have "map_of m u = Some dbCounts" "distinct (map fst dbCounts)"
    by (auto simp: distinct_keys_def list_all_iff)
  with a(2) show "lookup_count m u d = Some c"
    by (simp add: lookup_count_def)
next
  assume "lookup_count m u d = Some c"
  then obtain dbCounts where "map_of m u = Some dbCounts" "map_of dbCounts d = Some c"
    by (auto simp: lookup_count_def split: option.splits)
  then have "(u, dbCounts) \<in> set m" "(d, c) \<in> set dbCounts"
    by (auto dest: map_of_SomeD)
  then show "((u, d), c) \<in> set (entries m)"
    by (auto simp: entries_member)
qed

lemma counted_entries:
  "e \<in> set (entries (fold count_row rows [])) \<longleftrightarrow>
     0 < group_size rows (fst e) \<and> snd e = int (group_size rows (fst e))"
proof -
  obtain u d c where e: "e = ((u, d), c)" by (metis prod.collapse)
  have "distinct_keys (fold count_row rows [])"
    by (rule distinct_keys_fold) (rule distinct_keys_Nil)
  from entries_lookup [OF this] show ?thesis
    by (auto simp: e lookup_count_counted)
qed

lemma counted_entries_form:
  "entries (fold count_row rows []) =
     map (\<lambda>k. (k, int (group_size rows k))) (map fst (entries (fold count_row rows [])))"
proof -
  have "map (\<lambda>e. (fst e, int (group_size rows (fst e)))) (entries (fold count_row rows [])) =
        map (\<lambda>e. e) (entries (fold count_row rows []))"
    by (rule map_cong) (auto simp: counted_entries)
  then show ?thesis by (simp add: comp_def)
qed

lemma counted_keys:
  "distinct (map fst (entries (fold count_row prows [])))"
  "set (map fst (entries (fold count_row prows []))) = {k. 0 < group_size prows k}"
proof -
  show "distinct (map fst (entries (fold count_row prows [])))"
    by (rule entries_distinct) (rule distinct_keys_fold [OF distinct_keys_Nil])
  show "set (map fst (entries (fold count_row prows []))) = {k. 0 < group_size prows k}"
  proof (rule set_eqI)
    fix k
    have "k \<in> set (map fst (entries (fold count_row prows []))) \<longleftrightarrow>
            (\<exists>c. (k, c) \<in> set (entries (fold count_row prows [])))"
      by force
    also have "\<dots> \<longleftrightarrow> 0 < group_size prows k"
      by (simp add: counted_entries)
    finally show "k \<in> set (map fst (entries (fold count_row prows []))) \<longleftrightarrow>
                   k \<in> {k. 0 < group_size prows k}"
      by simp
  qed
qed

section \<open>The calls of the process-list half\<close>

lemma export_inner_emit:
  "fold (\<lambda>(d, c). gauge_set processListCount [cn, u, d, og] (float64_of_int c)) dbCounts st =
     emit (map (\<lambda>(d, c). count_call cn og ((u, d), c)) dbCounts) [] st"
proof -
  have "fold (\<lambda>(d, c). gauge_set processListCount [cn, u, d, og] (float64_of_int c)) dbCounts st =
        emit (concat (map (\<lambda>(d, c). [count_call cn og ((u, d), c)]) dbCounts))
             (concat (map (\<lambda>x. []) dbCounts)) st"
    by (rule fold_emit) (simp add: gauge_set_emit count_call_def split: prod.splits)
  moreover have "concat (map (\<lambda>(d, c). [count_call cn og ((u, d), c)]) dbCounts) =
                 map (\<lambda>(d, c). count_call cn og ((u, d), c)) dbCounts"
    by (induction dbCounts) auto
  ultimately show ?thesis by simp
qed

lemma export_counts_emit:
  "export_counts cn og m st = emit (map (count_call cn og) (entries m)) [] st"
proof -
  have "export_counts cn og m st =
        emit (concat (map (\<lambda>(u, dbCounts). map (\<lambda>(d, c). count_call cn og ((u, d), c)) dbCounts) m))
             (concat (map (\<lambda>x. []) m)) st"
    unfolding export_counts_def
    by (rule fold_emit) (simp add: export_inner_emit split: prod.splits)
  moreover have "concat (map (\<lambda>(u, dbCounts). map (\<lambda>(d, c). count_call cn og ((u, d), c)) dbCounts) m) =
                 map (count_call cn og) (entries m)"
    by (induction m) (auto simp: entries_def)
  ultimately show ?thesis by simp
qed

lemma export_counts_calls: "calls_of (export_counts cn og m) = map (count_call cn og) (entries m)"
  by (rule collectingI(2)) (rule export_counts_emit)

lemma processlist_calls_metric:
  "c \<in> set (processlist_calls cn og processlist) \<Longrightarrow> fst (fst c) = processListCount"
  by (cases processlist)
     (auto simp: processlist_calls_def export_counts_calls count_call_def)

lemma processlist_calls_counted:
  "processlist_calls cn og (Inr prows) =
     map (\<lambda>k. ((processListCount, [cn, fst k, snd k, og]), float64_of_int (int (group_size prows k))))
       (map fst (entries (fold count_row prows [])))"
proof -
  have "processlist_calls cn og (Inr prows) =
          map (count_call cn og) (entries (fold count_row prows []))"
    by (simp add: processlist_calls_def export_counts_calls)
  also have "\<dots> = map (count_call cn og)
      (map (\<lambda>k. (k, int (group_size prows k))) (map fst (entries (fold count_row prows []))))"
    using counted_entries_form [of prows] by simp
  finally show ?thesis
    by (simp add: comp_def count_call_def)
qed

lemma processlist_calls_distinct: "distinct (map fst (processlist_calls cn og (Inr prows)))"
proof -
  have "map fst (processlist_calls cn og (Inr prows)) =
          map (\<lambda>k. (processListCount, [cn, fst k, snd k, og]))
            (map fst (entries (fold count_row prows [])))"
    by (simp add: processlist_calls_counted comp_def)
  moreover have "distinct (map (\<lambda>k. (processListCount, [cn, fst k, snd k, og]))
            (map fst (entries (fold count_row prows []))))"
    using counted_keys(1) [of prows]
    by (simp only: distinct_map) (auto simp: inj_on_def prod_eq_iff)
  ultimately show ?thesis by simp
qed

lemma export_counts_any_order:
  assumes "mset es = mset (entries (fold count_row prows []))"
  shows "registry (fold (\<lambda>e. gauge_set processListCount [cn, fst (fst e), snd (fst e), og]
                            (float64_of_int (snd e))) es st) =
         registry (export_counts cn og (fold count_row prows []) st)"
proof -
  let ?m = "fold count_row prows []"
  have f: "fold (\<lambda>e. gauge_set processListCount [cn, fst (fst e), snd (fst e), og]
                            (float64_of_int (snd e))) es st =
           emit (concat (map (\<lambda>e. [count_call cn og e]) es)) (concat (map (\<lambda>e. []) es)) st"
    by (rule fold_emit) (simp add: gauge_set_emit count_call_def)
  have c: "concat (map (\<lambda>e. [count_call cn og e]) es) = map (count_call cn og) es"
    by (induction es) simp_all
  have d: "distinct (map fst (map (count_call cn og) (entries ?m)))"
    using processlist_calls_distinct [of cn og prows]
    by (simp add: processlist_calls_def export_counts_calls)
  have "mset (map (count_call cn og) es) = mset (map (count_call cn og) (entries ?m))"
    using assms by simp
  with d have "map_of (rev (map (count_call cn og) es)) =
               map_of (rev (map (count_call cn og) (entries ?m)))"
    by (rule map_of_rev_perm)
  then show ?thesis
    by (simp add: f c export_counts_emit)
qed

section \<open>The calls of collectMetrics\<close>

lemma collectMetrics_collecting: "collecting (collectMetrics cn og tables processlist)"
proof (cases tables)
  case (Inl err)
  show ?thesis
    by (rule collectingI(1)) (simp add: collectMetrics_def Inl log_Printf_emit)
next
  case tr: (Inr rows)
  show ?thesis
  proof (cases processlist)
    case (Inl err)
    show ?thesis
      by (rule collectingI(1))
         (simp add: collectMetrics_def tr Inl log_Printf_emit emit_emit
                    fold_collecting [OF storage_row_collecting(1)])
  next
    case (Inr prows)
    show ?thesis
      by (rule collectingI(1))
         (simp add: collectMetrics_def tr Inr export_counts_emit emit_emit
                    fold_collecting [OF storage_row_collecting(1)])
  qed
qed

lemma collectMetrics_emit:
  "collectMetrics cn og tables processlist st =
     emit (calls_of (collectMetrics cn og tables processlist))
          (lines_of (collectMetrics cn og tables processlist)) st"
  by (rule collectingD) (rule collectMetrics_collecting)

lemma collectMetrics_calls:
  "set_calls (collectMetrics cn og (Inr rows) processlist st) =
     set_calls st @ concat (map (\<lambda>row. calls_of (storage_row cn og row)) rows)
       @ processlist_calls cn og processlist"
  by (cases processlist)
     (simp_all add: collectMetrics_def storage_rows_emit log_Printf_emit processlist_calls_def
                    export_counts_emit export_counts_calls)

lemma collectMetrics_registry_storage:
  assumes "m \<noteq> processListCount"
  shows "registry (collectMetrics cn og (Inr rows) processlist st) (m, lvs) =
           (registry st ++ map_of (rev (concat (map (\<lambda>row. calls_of (storage_row cn og row)) rows))))
             (m, lvs)"
proof -
  let ?A = "concat (map (\<lambda>row. calls_of (storage_row cn og row)) rows)"
  let ?P = "processlist_calls cn og processlist"
  have c: "calls_of (collectMetrics cn og (Inr rows) processlist) = ?A @ ?P"
    using collectMetrics_calls [of cn og rows processlist init_state]
    by (simp add: calls_of_def init_state_def)
  have n: "map_of (rev ?P) (m, lvs) = None"
    by (rule map_of_rev_other_metric [OF processlist_calls_metric assms])
  have "registry (collectMetrics cn og (Inr rows) processlist st) =
          registry st ++ map_of (rev (?A @ ?P))"
    by (subst collectMetrics_emit) (simp add: c)
  then show ?thesis
    by (simp add: map_add_def n)
qed


lemma collectMetrics_empty_results:
  "collectMetrics cn og (Inr []) (Inr []) st = st"
  by (simp add: collectMetrics_def export_counts_def)

section \<open>The connection-count query and its calls\<close>

lemma conn_row_step_emit:
  "conn_row_step cn og row st =
     emit (case scan_conn_row row of
             Inl err \<Rightarrow> []
           | Inr r \<Rightarrow>
               [((connCount,
                  [cn,
                   if Valid (conn_userName r) then Val (conn_userName r) else ''UNKNOWN_USER'',
                   if Valid (conn_dbName r) then Val (conn_dbName r) else ''UNKNOWN_DB'',
                   og]),
                 float64_of_int (conn_count r))])
          (case scan_conn_row row of
             Inl err \<Rightarrow> [(''database %s: Error scanning connection count row: %v'', [cn], err)]
           | Inr r \<Rightarrow> [])
          st"
  by (simp add: conn_row_step_def gauge_set_emit log_Printf_emit Let_def split: sum.splits)

lemmas conn_row_step_collecting =
  collectingI [of "conn_row_step cn og row" for cn og row, OF conn_row_step_emit]

lemma collectConnCount_collecting: "collecting (collectConnCount cn og conns)"
proof (cases conns)
  case (Inl err)
  show ?thesis
    by (rule collectingI(1)) (simp add: collectConnCount_def Inl log_Printf_emit)
next
  case (Inr rows)
  show ?thesis
    by (rule collectingI(1))
       (simp add: collectConnCount_def Inr fold_collecting [OF conn_row_step_collecting(1)])
qed

lemma collectConnCount_emit:
  "collectConnCount cn og conns st =
     emit (calls_of (collectConnCount cn og conns)) (lines_of (collectConnCount cn og conns)) st"
  by (rule collectingD) (rule collectConnCount_collecting)










section \<open>Runs of the process\<close>

lemma step_exited: "exit_status p \<noteq> None \<Longrightarrow> step ev p = p"
  by (simp add: step_def)


lemma run_Cons: "run (ev # evs) p = run evs (step ev p)"
  by (simp add: run_def)

lemma run_Nil: "run [] p = p"
  by (simp add: run_def)


lemma step_emit: "\<exists>W L. collector (step ev p) = emit W L (collector p)"
proof (cases "exit_status p = None")
  case False
  then have "collector (step ev p) = emit [] [] (collector p)"
    by (simp add: step_exited)
  then show ?thesis by blast
next
  case running: True
  show ?thesis
  proof (cases ev)
    case (MainStep failure)
    show ?thesis
    proof (cases "unstarted p = [] \<and> \<not> listening p \<and> failure \<noteq> None")
      case True
      then obtain err where "failure = Some err" by auto
      with True MainStep running have "collector (step ev p) =
          emit [] [(''%v'', [], err)] (collector p)"
        by (simp add: step_def log_Printf_emit)
      then show ?thesis by blast
    next
      case False
      with MainStep running have "collector (step ev p) = emit [] [] (collector p)"
        by (auto simp: step_def split: list.splits option.splits)
      then show ?thesis by blast
    qed
  next
    case (Open i failure)
    show ?thesis
    proof (cases "i < length (workers p) \<and> snd (workers p ! i) = Opening \<and> failure \<noteq> None")
      case True
      then obtain err where "failure = Some err" by auto
      with True Open running have "collector (step ev p) =
          emit [] [(''Error opening database %s: %v'', [Name (fst (workers p ! i))], err)] (collector p)"
        by (simp add: step_def log_Printf_emit)
      then show ?thesis by blast
    next
      case False
      with Open running have "collector (step ev p) = emit [] [] (collector p)"
        by (auto simp: step_def Let_def split: option.splits)
      then show ?thesis by blast
    qed
  next
    case (Metrics i tables processlist)
    show ?thesis
    proof (cases "i < length (workers p) \<and> snd (workers p ! i) = Polling")
      case True
      with Metrics running show ?thesis
        using collectMetrics_emit by (simp add: step_def Let_def) blast
    next
      case False
      with Metrics running have "collector (step ev p) = emit [] [] (collector p)"
        by (auto simp: step_def)
      then show ?thesis by blast
    qed
  next
    case (Conns i conns)
    show ?thesis
    proof (cases "i < length (workers p) \<and> snd (workers p ! i) = Polling")
      case True
      with Conns running show ?thesis
        using collectConnCount_emit by (simp add: step_def Let_def) blast
    next
      case False
      with Conns running have "collector (step ev p) = emit [] [] (collector p)"
        by (auto simp: step_def)
      then show ?thesis by blast
    qed
  next
    case Scrape
    then have "collector (step ev p) = emit [] [] (collector p)"
      using running by (simp add: step_def)
    then show ?thesis by blast
  qed
qed

lemma run_emit: "\<exists>W L. collector (run evs p) = emit W L (collector p)"
proof (induction evs arbitrary: p)
  case Nil
  have "collector (run [] p) = emit [] [] (collector p)" by (simp add: run_Nil)
  then show ?case by blast
next
  case (Cons ev evs)
  from Cons.IH [of "step ev p"] obtain W L where
    a: "collector (run evs (step ev p)) = emit W L (collector (step ev p))" by blast
  from step_emit [of ev p] obtain W' L' where
    b: "collector (step ev p) = emit W' L' (collector p)" by blast
  have "collector (run (ev # evs) p) = emit (W' @ W) (L' @ L) (collector p)"
    by (simp add: run_Cons a b emit_emit)
  then show ?case by blast
qed

lemma run_calls_during:
  "set_calls (collector (run evs p)) = set_calls (collector p) @ calls_during evs p"
  "registry (collector (run evs p)) = registry (collector p) ++ map_of (rev (calls_during evs p))"
proof -
  from run_emit [of evs p] obtain W L where
    e: "collector (run evs p) = emit W L (collector p)" by blast
  then have w: "calls_during evs p = W" by (simp add: calls_during_def)
  show "set_calls (collector (run evs p)) = set_calls (collector p) @ calls_during evs p"
    by (simp add: e w)
  show "registry (collector (run evs p)) = registry (collector p) ++ map_of (rev (calls_during evs p))"
    by (simp add: e w)
qed

lemma start_registry:
  "registry (collector (start config)) = Map.empty" "set_calls (collector (start config)) = []"
  by (cases config; simp add: start_def init_state_def log_Printf_def)+

lemma registry_from_start:
  "registry (collector (run evs (start config))) =
     map_of (rev (set_calls (collector (run evs (start config)))))"
  by (simp add: run_calls_during start_registry)

lemma shard1_polling_eq:
  "shard1_polling =
     \<lparr>exit_status = None, unstarted = [], listening = False, workers = [(shard1, Polling)],
      collector = init_state, served = []\<rparr>"
  by (simp add: shard1_polling_def run_def step_def start_def)


lemma rendered_iff:
  "s \<in> rendered r \<longleftrightarrow> (\<exists>m lvs v. s = (metric_name m, zip (label_names m) lvs, v) \<and> r (m, lvs) = Some v)"
  by (auto simp: rendered_def)

section \<open>The scenario of one target and one table\<close>

text \<open>
  Claim C1, as amended. With the single target \<open>shard1\<close> (origin label \<open>prod\<close>) and a storage
  result of the one row (\<open>app\<close>, \<open>users\<close>, 100, 2048, 512), one run of \<open>collectMetrics\<close>
  leaves in the registry the samples
  \<^verbatim>\<open>mysql_table_size_bytes{cloud_name="shard1",database="app",table="users",origin_prometheus="prod"} 2048\<close>,
  \<^verbatim>\<open>mysql_index_size_bytes\<close> at the same labels with 512 and \<^verbatim>\<open>mysql_table_rows\<close> at the
  same labels with 100, whatever the process list holds: the metric names carry the prefix
  \<^verbatim>\<open>mysql_\<close> and the fourth label is \<^verbatim>\<open>origin_prometheus\<close>.
\<close>

theorem scenario_shard1_users:
  "(''mysql_table_size_bytes'',
      [(''cloud_name'', ''shard1''), (''database'', ''app''), (''table'', ''users''),
       (''origin_prometheus'', ''prod'')], 2048)
     \<in> rendered (registry (collector
           (run [MainStep None, Open 0 None, Metrics 0 (Inr [users_row]) processlist]
              (start (Inr [shard1])))))
   \<and> (''mysql_index_size_bytes'',
      [(''cloud_name'', ''shard1''), (''database'', ''app''), (''table'', ''users''),
       (''origin_prometheus'', ''prod'')], 512)
     \<in> rendered (registry (collector
           (run [MainStep None, Open 0 None, Metrics 0 (Inr [users_row]) processlist]
              (start (Inr [shard1])))))
   \<and> (''mysql_table_rows'',
      [(''cloud_name'', ''shard1''), (''database'', ''app''), (''table'', ''users''),
       (''origin_prometheus'', ''prod'')], 100)
     \<in> rendered (registry (collector
           (run [MainStep None, Open 0 None, Metrics 0 (Inr [users_row]) processlist]
              (start (Inr [shard1])))))"
proof -
  let ?p = "run [MainStep None, Open 0 None, Metrics 0 (Inr [users_row]) processlist]
              (start (Inr [shard1]))"
  have p: "collector ?p = collectMetrics ''shard1'' ''prod'' (Inr [users_row]) processlist init_state"
    by (simp add: run_def step_def start_def shard1_def)
  have 1: "registry (collector ?p) (tableSize, [''shard1'', ''app'', ''users'', ''prod'']) = Some 2048"
    by (simp add: p collectMetrics_registry_storage users_row_calls)
  have 2: "registry (collector ?p) (indexSize, [''shard1'', ''app'', ''users'', ''prod'']) = Some 512"
    by (simp add: p collectMetrics_registry_storage users_row_calls)
  have 3: "registry (collector ?p) (tableRows, [''shard1'', ''app'', ''users'', ''prod'']) = Some 100"
    by (simp add: p collectMetrics_registry_storage users_row_calls)
  have r: "\<And>m lvs v. registry (collector ?p) (m, lvs) = Some v \<Longrightarrow>
             (metric_name m, zip (label_names m) lvs, v) \<in> rendered (registry (collector ?p))"
    unfolding rendered_def by blast
  show ?thesis
    using r [OF 1] r [OF 2] r [OF 3] by simp
qed

text \<open>
  Claim C1, as stated, fails: after that run no sample is rendered under the name
  \<^verbatim>\<open>table_size_bytes\<close> with a label \<^verbatim>\<open>origin\<close>.
\<close>

theorem scenario_shard1_users_counterexample:
  "(''table_size_bytes'',
      [(''cloud_name'', ''shard1''), (''database'', ''app''), (''table'', ''users''),
       (''origin'', ''prod'')], 2048)
     \<notin> rendered (registry (collector
           (run [MainStep None, Open 0 None, Metrics 0 (Inr [users_row]) (Inr [])]
              (start (Inr [shard1])))))"
proof
  assume "(''table_size_bytes'',
      [(''cloud_name'', ''shard1''), (''database'', ''app''), (''table'', ''users''),
       (''origin'', ''prod'')], 2048)
     \<in> rendered (registry (collector
           (run [MainStep None, Open 0 None, Metrics 0 (Inr [users_row]) (Inr [])]
              (start (Inr [shard1])))))"
  then obtain m where "metric_name m = ''table_size_bytes''"
    unfolding rendered_def by force
  then show False by (cases m) simp_all
qed

section \<open>Storage collection: three gauge updates per row\<close>



section \<open>Idempotence\<close>

text \<open>
  Claim C8. Running \<open>collectMetrics\<close> (storage and process list) or \<open>collectConnCount\<close> a
  second time on the same query outcomes leaves the registry as the first run left it, and
  so does repeating a single \<^verbatim>\<open>Set\<close> call: a write overwrites the value of its series and
  adds nothing else.
\<close>

theorem collection_is_idempotent:
  "registry (collectMetrics cn og tables processlist
               (collectMetrics cn og tables processlist st)) =
     registry (collectMetrics cn og tables processlist st)
   \<and> registry (collectConnCount cn og conns (collectConnCount cn og conns st)) =
     registry (collectConnCount cn og conns st)
   \<and> registry (gauge_set m lvs v (gauge_set m lvs v st)) = registry (gauge_set m lvs v st)"
proof (intro conjI)
  show "registry (collectMetrics cn og tables processlist
               (collectMetrics cn og tables processlist st)) =
     registry (collectMetrics cn og tables processlist st)"
    by (rule collecting_twice) (rule collectMetrics_collecting)
  show "registry (collectConnCount cn og conns (collectConnCount cn og conns st)) =
     registry (collectConnCount cn og conns st)"
    by (rule collecting_twice) (rule collectConnCount_collecting)
  show "registry (gauge_set m lvs v (gauge_set m lvs v st)) = registry (gauge_set m lvs v st)"
    by (simp add: gauge_set_def)
qed

section \<open>NULL size columns\<close>



section \<open>Failure of a query\<close>

text \<open>
  Claim C4. When the storage query fails (so that \<open>collectMetrics\<close> returns at once) or the
  connection-count query fails, the collector logs the error and does nothing else: it
  makes no \<^verbatim>\<open>Set\<close> call and the registry is as before, stale values included. The
  process has not exited and the goroutine is still in its loop, so the next iteration
  runs its collector as usual.
\<close>

theorem failed_query_skips_the_cycle:
  assumes "exit_status p = None" and "i < length (workers p)"
    and "workers p ! i = (dbConfig, Polling)"
  shows "step (Metrics i (Inl err) processlist) p =
           p\<lparr>collector := (collector p)\<lparr>logs := logs (collector p) @
              [(''database %s: Error executing table size query: %v'', [Name dbConfig], err)]\<rparr>\<rparr>
       \<and> step (Conns i (Inl err)) p =
           p\<lparr>collector := (collector p)\<lparr>logs := logs (collector p) @
              [(''database %s: Error executing connection count query: %v'', [Name dbConfig], err)]\<rparr>\<rparr>
       \<and> registry (collector (step (Metrics i (Inl err) processlist) p)) = registry (collector p)
       \<and> set_calls (collector (step (Metrics i (Inl err) processlist) p)) = set_calls (collector p)
       \<and> registry (collector (step (Conns i (Inl err)) p)) = registry (collector p)
       \<and> set_calls (collector (step (Conns i (Inl err)) p)) = set_calls (collector p)
       \<and> collector (step (Metrics i tables' processlist') (step (Metrics i (Inl err) processlist) p)) =
           collectMetrics (Name dbConfig) (OriginPrometheus dbConfig) tables' processlist'
             (collector (step (Metrics i (Inl err) processlist) p))
       \<and> collector (step (Conns i conns') (step (Conns i (Inl err)) p)) =
           collectConnCount (Name dbConfig) (OriginPrometheus dbConfig) conns'
             (collector (step (Conns i (Inl err)) p))"
  using assms
  by (simp add: step_def collectMetrics_def collectConnCount_def log_Printf_def)

theorem failed_query_skips_the_cycle_witness:
  "exit_status shard1_polling = None \<and> 0 < length (workers shard1_polling)
   \<and> workers shard1_polling ! 0 = (shard1, Polling)
   \<and> registry (collector (step (Metrics 0 (Inl (ErrorText ''timeout'')) (Inr [])) shard1_polling)) =
       registry (collector shard1_polling)
   \<and> logs (collector (step (Metrics 0 (Inl (ErrorText ''timeout'')) (Inr [])) shard1_polling)) =
       [(''database %s: Error executing table size query: %v'', [''shard1''], ErrorText ''timeout'')]
   \<and> set_calls (collector (step (Metrics 0 (Inr [users_row]) (Inr []))
         (step (Metrics 0 (Inl (ErrorText ''timeout'')) (Inr [])) shard1_polling))) =
       [((tableSize, [''shard1'', ''app'', ''users'', ''prod'']), 2048),
        ((indexSize, [''shard1'', ''app'', ''users'', ''prod'']), 512),
        ((tableRows, [''shard1'', ''app'', ''users'', ''prod'']), 100)]"
proof -
  have h: "exit_status shard1_polling = None" "0 < length (workers shard1_polling)"
    "workers shard1_polling ! 0 = (shard1, Polling)"
    by (simp_all add: shard1_polling_eq)
  have c: "set_calls (collectMetrics ''shard1'' ''prod'' (Inr [users_row]) (Inr []) st) =
             set_calls st @ calls_of (storage_row ''shard1'' ''prod'' users_row)" for st
    by (simp add: collectMetrics_calls processlist_calls_def calls_of_def export_counts_def
          init_state_def)
  let ?e = "ErrorText ''timeout''"
  let ?p1 = "step (Metrics 0 (Inl ?e) (Inr [])) shard1_polling"
  note t = failed_query_skips_the_cycle [OF h, of ?e "Inr []" "Inr [users_row]" "Inr []"]
  from t have r: "registry (collector ?p1) = registry (collector shard1_polling)"
    by blast
  from t have s: "set_calls (collector ?p1) = set_calls (collector shard1_polling)"
    by blast
  from t have "?p1 = shard1_polling\<lparr>collector := (collector shard1_polling)\<lparr>logs :=
        logs (collector shard1_polling) @
          [(''database %s: Error executing table size query: %v'', [Name shard1], ?e)]\<rparr>\<rparr>"
    by blast
  then have l: "logs (collector ?p1) =
      [(''database %s: Error executing table size query: %v'', [''shard1''], ?e)]"
    by (simp add: shard1_polling_eq init_state_def shard1_def)
  have s0: "set_calls (collector ?p1) = []"
    using s by (simp add: shard1_polling_eq init_state_def)
  from t have "collector (step (Metrics 0 (Inr [users_row]) (Inr [])) ?p1) =
      collectMetrics (Name shard1) (OriginPrometheus shard1) (Inr [users_row]) (Inr [])
        (collector ?p1)"
    by blast
  then have n: "set_calls (collector (step (Metrics 0 (Inr [users_row]) (Inr [])) ?p1)) =
      [((tableSize, [''shard1'', ''app'', ''users'', ''prod'']), 2048),
       ((indexSize, [''shard1'', ''app'', ''users'', ''prod'']), 512),
       ((tableRows, [''shard1'', ''app'', ''users'', ''prod'']), 100)]"
    by (simp add: c s0 users_row_calls shard1_def)
  show ?thesis
    using h r l n by simp
qed

section \<open>Failure of sql.Open\<close>




section \<open>No series is ever deleted\<close>

text \<open>
  Claim C9. At any moment of any run from \<open>start\<close>, every rendered sample is a series
  that some \<^verbatim>\<open>Set\<close> call wrote, and the registry holds for each series the value of the
  last call for it: what was never written does not appear. From any process state, after
  any further events, the registry is the earlier registry overridden by the calls made
  in between: a series that was present stays present, with the last value written to
  it, and with its old value when no call in between was for it.
\<close>

theorem series_are_never_deleted:
  "(\<forall>s\<in>rendered (registry (collector (run evs (start config)))).
      \<exists>m lvs v. s = (metric_name m, zip (label_names m) lvs, v) \<and>
        ((m, lvs), v) \<in> set (set_calls (collector (run evs (start config)))))
   \<and> registry (collector (run evs (start config))) =
       map_of (rev (set_calls (collector (run evs (start config)))))
   \<and> registry (collector (run evs p)) =
       registry (collector p) ++ map_of (rev (calls_during evs p))
   \<and> (registry (collector p) k = Some v \<longrightarrow>
        registry (collector (run evs p)) k =
          Some (case map_of (rev (calls_during evs p)) k of None \<Rightarrow> v | Some v' \<Rightarrow> v'))
   \<and> (registry (collector p) k = Some v \<longrightarrow> k \<notin> fst ` set (calls_during evs p) \<longrightarrow>
        registry (collector (run evs p)) k = Some v)"
proof (intro conjI ballI impI)
  let ?st = "collector (run evs (start config))"
  show start: "registry ?st = map_of (rev (set_calls ?st))"
    by (rule registry_from_start)
  fix s assume "s \<in> rendered (registry ?st)"
  then obtain m lvs v where s: "s = (metric_name m, zip (label_names m) lvs, v)"
    and "registry ?st (m, lvs) = Some v"
    by (auto simp: rendered_iff)
  then have "map_of (rev (set_calls ?st)) (m, lvs) = Some v"
    by (simp add: start)
  then have "((m, lvs), v) \<in> set (set_calls ?st)"
    by (auto dest: map_of_SomeD)
  with s show "\<exists>m lvs v. s = (metric_name m, zip (label_names m) lvs, v) \<and>
        ((m, lvs), v) \<in> set (set_calls ?st)"
    by blast
next
  show "registry (collector (run evs p)) =
       registry (collector p) ++ map_of (rev (calls_during evs p))"
    by (rule run_calls_during)
next
  assume "registry (collector p) k = Some v"
  then show "registry (collector (run evs p)) k =
          Some (case map_of (rev (calls_during evs p)) k of None \<Rightarrow> v | Some v' \<Rightarrow> v')"
    by (simp add: run_calls_during map_add_def split: option.splits)
next
  assume "registry (collector p) k = Some v" and "k \<notin> fst ` set (calls_during evs p)"
  then have "map_of (rev (calls_during evs p)) k = None"
    by (simp add: map_of_eq_None_iff)
  with \<open>registry (collector p) k = Some v\<close> show "registry (collector (run evs p)) k = Some v"
    by (simp add: run_calls_during map_add_def)
qed

theorem series_are_never_deleted_witness:
  "registry (collector (run [Metrics 0 (Inr [users_row]) (Inr [])] shard1_polling))
       (tableRows, [''shard1'', ''app'', ''users'', ''prod'']) = Some 100
   \<and> calls_during [Metrics 0 (Inr []) (Inr []), Scrape]
         (run [Metrics 0 (Inr [users_row]) (Inr [])] shard1_polling) = []
   \<and> registry (collector (run [Metrics 0 (Inr []) (Inr []), Scrape]
         (run [Metrics 0 (Inr [users_row]) (Inr [])] shard1_polling)))
       (tableRows, [''shard1'', ''app'', ''users'', ''prod'']) = Some 100"
proof -
  let ?p = "run [Metrics 0 (Inr [users_row]) (Inr [])] shard1_polling"
  let ?k = "(tableRows, [''shard1'', ''app'', ''users'', ''prod''])"
  have p: "?p = shard1_polling\<lparr>collector :=
             collectMetrics ''shard1'' ''prod'' (Inr [users_row]) (Inr []) init_state\<rparr>"
    by (simp add: run_def step_def shard1_polling_eq shard1_def)
  have a: "registry (collector ?p) ?k = Some 100"
    by (simp add: p collectMetrics_registry_storage users_row_calls init_state_def)
  have q: "run [Metrics 0 (Inr []) (Inr []), Scrape] ?p = ?p"
    by (simp add: p run_def step_def shard1_polling_eq shard1_def collectMetrics_empty_results)
  have b: "calls_during [Metrics 0 (Inr []) (Inr []), Scrape] ?p = []"
    by (simp add: calls_during_def q)
  then have n: "?k \<notin> fst ` set (calls_during [Metrics 0 (Inr []) (Inr []), Scrape] ?p)"
    by simp
  from series_are_never_deleted [of "[Metrics 0 (Inr []) (Inr []), Scrape]" "Inr []" ?p ?k 100]
  have "registry (collector (run [Metrics 0 (Inr []) (Inr []), Scrape] ?p)) ?k = Some 100"
    using a n by blast
  with a b show ?thesis by blast
qed

section \<open>Scanning a process-list row\<close>



section \<open>Process-list counts per user and database\<close>



section \<open>Connection counts: the twenty largest groups\<close>



end
